theory Spec2Isabelle
  imports Main "HOL-Library.AList"
begin

section \<open>JavaScript values used by the widgets\<close>

text \<open>
  The widgets store and compare plain JavaScript values: \<^verbatim>\<open>undefined\<close> (a missing
  property), \<^verbatim>\<open>null\<close>, booleans, numbers, strings, arrays and objects. The numbers
  that occur are the priority levels of an issue (small integers) and \<^verbatim>\<open>NaN\<close>, which
  \<^verbatim>\<open>Number(s)\<close> yields on a string that is not a numeral. An object is an association
  list of its own properties in insertion order.
\<close>

datatype jsval =
    JUndefined
  | JNull
  | JBool bool
  | JNum int
  | JNaN
  | JStr string
  | JArr "jsval list"
  | JObj "(string \<times> jsval) list"

text \<open>\<^verbatim>\<open>obj[k]\<close>: the property, or \<^verbatim>\<open>undefined\<close> when the object has none.\<close>

definition get_prop :: "(string \<times> jsval) list \<Rightarrow> string \<Rightarrow> jsval" where
  "get_prop obj k = (case map_of obj k of Some v \<Rightarrow> v | None \<Rightarrow> JUndefined)"

text \<open>\<^verbatim>\<open>a ?? b\<close>: \<^verbatim>\<open>b\<close> exactly when \<^verbatim>\<open>a\<close> is \<^verbatim>\<open>null\<close> or \<^verbatim>\<open>undefined\<close>.\<close>

definition coalesce :: "jsval \<Rightarrow> jsval \<Rightarrow> jsval" where
  "coalesce a b = (if a = JUndefined \<or> a = JNull then b else a)"

text \<open>A nullable string prop (\<^verbatim>\<open>string | null\<close>) as a JavaScript value.\<close>

definition of_nullable :: "string option \<Rightarrow> jsval" where
  "of_nullable v = (case v of None \<Rightarrow> JNull | Some s \<Rightarrow> JStr s)"

section \<open>DataCard: the selection list (card-data.tsx)\<close>

record DataCardState =
  selectedValues :: "string list"

text \<open>\<^verbatim>\<open>Array.prototype.indexOf\<close>: the first index holding the value, or -1.\<close>

fun indexOf :: "'a list \<Rightarrow> 'a \<Rightarrow> int" where
  "indexOf [] v = -1"
| "indexOf (x # xs) v =
     (if x = v then 0 else (let i = indexOf xs v in if i > -1 then i + 1 else -1))"

text \<open>
  \<^verbatim>\<open>xs.splice(start, deleteCount)\<close> for \<^verbatim>\<open>0 <= start\<close>: the array without the
  \<^verbatim>\<open>deleteCount\<close> entries from \<^verbatim>\<open>start\<close> on.
\<close>

definition splice :: "'a list \<Rightarrow> nat \<Rightarrow> nat \<Rightarrow> 'a list" where
  "splice xs start deleteCount = take start xs @ drop (start + deleteCount) xs"

text \<open>
  \<^verbatim>\<open>handleToggleCard(value)\<close>. The component state is \<^verbatim>\<open>undefined\<close> (\<open>None\<close>) until
  the state hook has delivered it; then the handler returns without calling
  \<^verbatim>\<open>setState\<close>. Otherwise it copies the list, removes the entry at
  \<^verbatim>\<open>indexOf(value)\<close> when that is above -1, pushes the value otherwise, and stores
  the copy. The result is the component state after the call.
\<close>

definition handleToggleCard :: "DataCardState option \<Rightarrow> string \<Rightarrow> DataCardState option" where
  "handleToggleCard state v =
     (case state of
        None \<Rightarrow> None
      | Some st \<Rightarrow>
          (let selected = selectedValues st;
               index = indexOf selected v
           in Some \<lparr>selectedValues =
                (if index > -1 then splice selected (nat index) 1 else selected @ [v])\<rparr>))"

text \<open>The initial state given to the state hook, and a run of toggle clicks from a state.\<close>

definition DataCard_init :: "DataCardState option" where
  "DataCard_init = Some \<lparr>selectedValues = []\<rparr>"

definition toggle_all :: "DataCardState option \<Rightarrow> string list \<Rightarrow> DataCardState option" where
  "toggle_all state vs = foldl handleToggleCard state vs"

section \<open>EditableIssueTable: the edit buffer (editable-issue-table.tsx)\<close>

text \<open>
  The file holds two versions of the table; the model follows the later one, whose rows
  are keyed by \<^verbatim>\<open>identifier ?? id\<close> and have a priority control.
\<close>

text \<open>
  One entry of the \<^verbatim>\<open>issues\<close> prop. \<^verbatim>\<open>identifier\<close> is optional, \<^verbatim>\<open>assigneeId\<close> is
  nullable (\<open>None\<close> is \<^verbatim>\<open>null\<close>), \<^verbatim>\<open>priority\<close> is one of the levels 0 to 4.
\<close>

record issue =
  issue_id :: string
  "identifier" :: "string option"
  title :: string
  description :: string
  assigneeId :: "string option"
  status :: string
  priority :: int
  lastUpdated :: string

text \<open>
  The edit buffer \<^verbatim>\<open>editState\<close> is an object from row key to an object of field
  overrides; both are association lists in insertion order, the order
  \<^verbatim>\<open>Object.entries\<close> follows for keys that are not array indices.
\<close>

type_synonym fields = "(string \<times> jsval) list"
type_synonym edit_buffer = "(string \<times> fields) list"

record table_state =
  editState :: edit_buffer
  isSaving :: bool

definition table_init :: table_state where
  "table_init = \<lparr>editState = [], isSaving = False\<rparr>"

text \<open>
  \<^verbatim>\<open>handleFieldChange(id, field, value)\<close>, with \<^verbatim>\<open>value: string | null\<close>. It returns at
  once while a save is running. Otherwise the entry of \<^verbatim>\<open>id\<close> becomes its former
  fields (none when \<^verbatim>\<open>prev[id]\<close> is undefined) with \<^verbatim>\<open>field\<close> set; the field
  \<^verbatim>\<open>priority\<close> stores \<^verbatim>\<open>Number(value)\<close>, or 0 for a value that is null or empty. The
  builtin \<^verbatim>\<open>Number\<close> is a parameter.
\<close>

definition field_value :: "(string \<Rightarrow> jsval) \<Rightarrow> string \<Rightarrow> string option \<Rightarrow> jsval" where
  "field_value Number field v =
     (if field = ''priority''
      then (case v of Some s \<Rightarrow> (if s \<noteq> [] then Number s else JNum 0) | None \<Rightarrow> JNum 0)
      else of_nullable v)"

definition handleFieldChange ::
    "(string \<Rightarrow> jsval) \<Rightarrow> table_state \<Rightarrow> string \<Rightarrow> string \<Rightarrow> string option \<Rightarrow> table_state" where
  "handleFieldChange Number st i field v =
     (if isSaving st then st
      else st\<lparr>editState :=
        AList.update i
          (AList.update field (field_value Number field v)
             (case map_of (editState st) i of Some prev \<Rightarrow> prev | None \<Rightarrow> []))
          (editState st)\<rparr>)"

text \<open>
  What \<^verbatim>\<open>onSave\<close> does with the changes: the promise resolves, or it rejects (or the
  callback throws) with a value.
\<close>

datatype outcome = Resolved | Rejected jsval

type_synonym change = "string \<times> fields"

text \<open>
  The \<^verbatim>\<open>changes\<close> of \<^verbatim>\<open>handleSave\<close>: the entries whose fields object has a key. The
  filter reads the fields again through the entry's key, which the buffer always holds.
\<close>

definition save_changes :: "edit_buffer \<Rightarrow> change list" where
  "save_changes es =
     map (\<lambda>(i, fs). (i, fs))
       (filter (\<lambda>(idFields, _).
          (case map_of es idFields of Some fs \<Rightarrow> length (map fst fs) > 0 | None \<Rightarrow> False)) es)"

text \<open>
  \<^verbatim>\<open>handleSave()\<close>, run to the end of its promise. With no changes it does nothing.
  Otherwise it sets \<^verbatim>\<open>isSaving\<close>, awaits \<^verbatim>\<open>onSave(changes)\<close>, empties the buffer when
  that resolves, and resets \<^verbatim>\<open>isSaving\<close> in the \<^verbatim>\<open>finally\<close> block either way. There
  is no \<^verbatim>\<open>catch\<close>: a rejection leaves through the returned promise, which the first
  component of the result records.
\<close>

definition handleSave ::
    "(change list \<Rightarrow> outcome) \<Rightarrow> table_state \<Rightarrow> jsval option \<times> table_state" where
  "handleSave onSave st =
     (let changes = save_changes (editState st)
      in if length changes > 0
         then (let st1 = st\<lparr>isSaving := True\<rparr>
               in case onSave changes of
                    Resolved \<Rightarrow> (None, (st1\<lparr>editState := []\<rparr>)\<lparr>isSaving := False\<rparr>)
                  | Rejected e \<Rightarrow> (Some e, st1\<lparr>isSaving := False\<rparr>))
         else (None, st))"

text \<open>
  The values the row of an issue shows. The row key is
  \<^verbatim>\<open>issue.identifier ?? issue.id\<close>, \<^verbatim>\<open>edited\<close> is \<^verbatim>\<open>editState[key] || {}\<close>, and each
  control shows \<^verbatim>\<open>edited.f ?? issue.f\<close> (with a last \<^verbatim>\<open>?? ""\<close> for the assignee and
  \<^verbatim>\<open>?? 0\<close> for the priority).
\<close>

definition issue_key :: "issue \<Rightarrow> string" where
  "issue_key i = (case identifier i of Some s \<Rightarrow> s | None \<Rightarrow> issue_id i)"

definition edited :: "edit_buffer \<Rightarrow> issue \<Rightarrow> fields" where
  "edited es i = (case map_of es (issue_key i) of Some fs \<Rightarrow> fs | None \<Rightarrow> [])"

definition title_value :: "edit_buffer \<Rightarrow> issue \<Rightarrow> jsval" where
  "title_value es i = coalesce (get_prop (edited es i) ''title'') (JStr (issue.title i))"

definition description_value :: "edit_buffer \<Rightarrow> issue \<Rightarrow> jsval" where
  "description_value es i =
     coalesce (get_prop (edited es i) ''description'') (JStr (description i))"

definition assignee_value :: "edit_buffer \<Rightarrow> issue \<Rightarrow> jsval" where
  "assignee_value es i =
     coalesce (coalesce (get_prop (edited es i) ''assigneeId'') (of_nullable (assigneeId i)))
       (JStr '''')"

definition status_value :: "edit_buffer \<Rightarrow> issue \<Rightarrow> jsval" where
  "status_value es i = coalesce (get_prop (edited es i) ''status'') (JStr (status i))"

definition priority_value :: "edit_buffer \<Rightarrow> issue \<Rightarrow> jsval" where
  "priority_value es i =
     coalesce (coalesce (get_prop (edited es i) ''priority'') (JNum (priority i))) (JNum 0)"

text \<open>
  The same handler cut at its \<^verbatim>\<open>await\<close>. \<^verbatim>\<open>handleSave_begin\<close> is the part that runs in
  the click: it computes the changes and, when there are some, sets \<^verbatim>\<open>isSaving\<close> and
  calls \<^verbatim>\<open>onSave\<close> with them (the result names the changes passed, \<open>None\<close> when
  \<^verbatim>\<open>onSave\<close> is not called). \<^verbatim>\<open>handleSave_settle\<close> is the continuation that runs when the
  promise of \<^verbatim>\<open>onSave\<close> has settled, on the state the widget has by then. Events of
  the widget can run between the two.
\<close>

definition handleSave_begin :: "table_state \<Rightarrow> change list option \<times> table_state" where
  "handleSave_begin st =
     (let changes = save_changes (editState st)
      in if length changes > 0 then (Some changes, st\<lparr>isSaving := True\<rparr>) else (None, st))"

definition handleSave_settle :: "outcome \<Rightarrow> table_state \<Rightarrow> table_state" where
  "handleSave_settle settled st =
     (case settled of
        Resolved \<Rightarrow> (st\<lparr>editState := []\<rparr>)\<lparr>isSaving := False\<rparr>
      | Rejected e \<Rightarrow> st\<lparr>isSaving := False\<rparr>)"

text \<open>
  The mounted table: the \<^verbatim>\<open>issues\<close> prop of the latest render, the two state cells, and
  the calls of \<^verbatim>\<open>onSave\<close> that have not settled yet, oldest first, each with the changes
  it was given.
\<close>

record table_widget =
  issues_prop :: "issue list"
  table :: table_state
  saves :: "change list list"

definition table_mount :: "issue list \<Rightarrow> table_widget" where
  "table_mount supplied = \<lparr>issues_prop = supplied, table = table_init, saves = []\<rparr>"

text \<open>
  The events of the mounted table: a change of one control of the row at an index of
  the current \<^verbatim>\<open>issues\<close>, carrying \<^verbatim>\<open>e.target.value\<close>; a click on the save button; the
  promise of the oldest pending \<^verbatim>\<open>onSave\<close> settling; and a render with another
  \<^verbatim>\<open>issues\<close> prop, which leaves the state cells as they are (the buffer is created
  once, by the initialiser of \<^verbatim>\<open>useState\<close>, and no code prunes it). A control is
  disabled while a save runs, the button also while the buffer has no key; an index
  with no row has no control. The assignee control passes \<^verbatim>\<open>e.target.value || null\<close>.
\<close>

datatype ui_event =
    TitleInput nat string
  | DescriptionInput nat string
  | AssigneeSelect nat string
  | StatusSelect nat string
  | PrioritySelect nat string
  | SaveClick
  | SaveSettled
  | IssuesChange "issue list"

definition on_row :: "table_widget \<Rightarrow> nat \<Rightarrow> (string \<Rightarrow> table_state) \<Rightarrow> table_widget" where
  "on_row w row change =
     (if row < length (issues_prop w) \<and> \<not> isSaving (table w)
      then w\<lparr>table := change (issue_key (issues_prop w ! row))\<rparr>
      else w)"

fun ui_step ::
    "(string \<Rightarrow> jsval) \<Rightarrow> (change list \<Rightarrow> outcome) \<Rightarrow> table_widget \<Rightarrow> ui_event
       \<Rightarrow> table_widget" where
  "ui_step Number onSave w (TitleInput row s) =
     on_row w row (\<lambda>k. handleFieldChange Number (table w) k ''title'' (Some s))"
| "ui_step Number onSave w (DescriptionInput row s) =
     on_row w row (\<lambda>k. handleFieldChange Number (table w) k ''description'' (Some s))"
| "ui_step Number onSave w (AssigneeSelect row s) =
     on_row w row
       (\<lambda>k. handleFieldChange Number (table w) k ''assigneeId''
              (if s \<noteq> [] then Some s else None))"
| "ui_step Number onSave w (StatusSelect row s) =
     on_row w row (\<lambda>k. handleFieldChange Number (table w) k ''status'' (Some s))"
| "ui_step Number onSave w (PrioritySelect row s) =
     on_row w row (\<lambda>k. handleFieldChange Number (table w) k ''priority'' (Some s))"
| "ui_step Number onSave w SaveClick =
     (if length (map fst (editState (table w))) = 0 \<or> isSaving (table w) then w
      else (case handleSave_begin (table w) of
              (Some changes, st1) \<Rightarrow> w\<lparr>table := st1, saves := saves w @ [changes]\<rparr>
            | (None, st1) \<Rightarrow> w\<lparr>table := st1\<rparr>))"
| "ui_step Number onSave w SaveSettled =
     (case saves w of
        [] \<Rightarrow> w
      | changes # rest \<Rightarrow>
          w\<lparr>table := handleSave_settle (onSave changes) (table w), saves := rest\<rparr>)"
| "ui_step Number onSave w (IssuesChange supplied) = w\<lparr>issues_prop := supplied\<rparr>"

definition ui_run ::
    "(string \<Rightarrow> jsval) \<Rightarrow> (change list \<Rightarrow> outcome) \<Rightarrow> table_widget \<Rightarrow> ui_event list
       \<Rightarrow> table_widget" where
  "ui_run Number onSave w evs = foldl (ui_step Number onSave) w evs"

text \<open>
  The issues supplied to the table in the course of a run: those it was mounted with and
  those of every later render.
\<close>

fun supplied_issues :: "issue list \<Rightarrow> ui_event list \<Rightarrow> issue list" where
  "supplied_issues supplied [] = supplied"
| "supplied_issues supplied (IssuesChange later # evs) = supplied @ supplied_issues later evs"
| "supplied_issues supplied (ev # evs) = supplied_issues supplied evs"

fun issues_change :: "ui_event \<Rightarrow> bool" where
  "issues_change (IssuesChange supplied) = True"
| "issues_change ev = False"

text \<open>
  What every buffer built by the events keeps true: no key twice, and no entry without
  a field.
\<close>

definition buffer_ok :: "edit_buffer \<Rightarrow> bool" where
  "buffer_ok es = (distinct (map fst es) \<and> list_all (\<lambda>e. snd e \<noteq> []) es)"

text \<open>
  \<^verbatim>\<open>Number\<close> on the strings the priority control emits, the decimal numerals of its
  options; any other string is outside what the examples below use and reads as
  \<^verbatim>\<open>NaN\<close> here.
\<close>

definition digit_of :: "char \<Rightarrow> int option" where
  "digit_of c = map_of (zip ''0123456789'' [0, 1, 2, 3, 4, 5, 6, 7, 8, 9]) c"

fun digits_value :: "int \<Rightarrow> string \<Rightarrow> int option" where
  "digits_value acc [] = Some acc"
| "digits_value acc (c # cs) =
     (case digit_of c of Some d \<Rightarrow> digits_value (10 * acc + d) cs | None \<Rightarrow> None)"

definition Number_of_numeral :: "string \<Rightarrow> jsval" where
  "Number_of_numeral s =
     (if s = [] then JNum 0
      else (case digits_value 0 s of Some n \<Rightarrow> JNum n | None \<Rightarrow> JNaN))"

text \<open>Two issues for the examples: one with an identifier and an assignee, one without.\<close>

definition issue_1 :: issue where
  "issue_1 = \<lparr>issue_id = ''8f2c'', identifier = Some ''LIN-1'', title = ''Fix login'',
     description = ''Login fails'', assigneeId = Some ''u1'', status = ''todo'',
     priority = 2, lastUpdated = ''2025-01-01T00:00:00Z''\<rparr>"

definition issue_2 :: issue where
  "issue_2 = \<lparr>issue_id = ''77aa'', identifier = None, title = ''Add search'',
     description = ''Search box'', assigneeId = None, status = ''todo'',
     priority = 0, lastUpdated = ''2025-01-02T00:00:00Z''\<rparr>"

section \<open>RenderDiagram: the boundary schema (renderDiagramSchema)\<close>

text \<open>
  The parsed props. \<^verbatim>\<open>title\<close> stays optional; \<^verbatim>\<open>theme\<close>, \<^verbatim>\<open>width\<close> and \<^verbatim>\<open>height\<close>
  carry a default and are always present after parsing.
\<close>

record RenderDiagramProps =
  diagram :: string
  title :: "string option"
  theme :: string
  width :: string
  height :: string

text \<open>An issue of a failed parse, with the key it is about.\<close>

datatype zod_issue = invalid_type string | invalid_enum_value string

text \<open>\<^verbatim>\<open>z.string()\<close>: the value must be a string.\<close>

definition z_string :: "string \<Rightarrow> jsval \<Rightarrow> zod_issue + string" where
  "z_string path v = (case v of JStr s \<Rightarrow> Inr s | _ \<Rightarrow> Inl (invalid_type path))"

text \<open>
  \<^verbatim>\<open>z.enum(options)\<close>: the value must be a string, and one of the options.
\<close>

definition z_enum :: "string list \<Rightarrow> string \<Rightarrow> jsval \<Rightarrow> zod_issue + string" where
  "z_enum options path v =
     (case v of
        JStr s \<Rightarrow> (if s \<in> set options then Inr s else Inl (invalid_enum_value path))
      | _ \<Rightarrow> Inl (invalid_type path))"

text \<open>\<^verbatim>\<open>.optional()\<close>: \<^verbatim>\<open>undefined\<close> passes as it is, any other value goes to the inner schema.\<close>

definition z_optional :: "(jsval \<Rightarrow> zod_issue + 'a) \<Rightarrow> jsval \<Rightarrow> zod_issue + 'a option" where
  "z_optional inner v =
     (if v = JUndefined then Inr None
      else (case inner v of Inl e \<Rightarrow> Inl e | Inr a \<Rightarrow> Inr (Some a)))"

text \<open>
  \<^verbatim>\<open>.optional().default(d)\<close>: \<^verbatim>\<open>undefined\<close> is replaced by the default before the inner
  schema runs, so the optional wrapper below never sees \<^verbatim>\<open>undefined\<close> and the result
  is the inner schema's on the value or on the default.
\<close>

definition z_optional_default :: "jsval \<Rightarrow> (jsval \<Rightarrow> zod_issue + 'a) \<Rightarrow> jsval \<Rightarrow> zod_issue + 'a" where
  "z_optional_default d inner v = inner (if v = JUndefined then d else v)"

definition issues_of :: "zod_issue + 'a \<Rightarrow> zod_issue list" where
  "issues_of r = (case r of Inl e \<Rightarrow> [e] | Inr _ \<Rightarrow> [])"

definition themes :: "string list" where
  "themes = [''default'', ''dark'', ''forest'', ''base'', ''neutral'']"

text \<open>
  \<^verbatim>\<open>renderDiagramSchema.safeParse(input)\<close>: the input must be an object; each key is
  parsed by its schema, a missing key reading as \<^verbatim>\<open>undefined\<close>; the parse fails with
  the issues of all keys when one of them fails.
\<close>

definition renderDiagramSchema :: "jsval \<Rightarrow> zod_issue list + RenderDiagramProps" where
  "renderDiagramSchema input =
     (case input of
        JObj obj \<Rightarrow>
          (let d = z_string ''diagram'' (get_prop obj ''diagram'');
               t = z_optional (z_string ''title'') (get_prop obj ''title'');
               th = z_optional_default (JStr ''default'') (z_enum themes ''theme'')
                      (get_prop obj ''theme'');
               w = z_optional_default (JStr ''100%'') (z_string ''width'') (get_prop obj ''width'');
               h = z_optional_default (JStr ''400px'') (z_string ''height'')
                     (get_prop obj ''height'')
           in case (d, t, th, w, h) of
                (Inr d', Inr t', Inr th', Inr w', Inr h') \<Rightarrow>
                  Inr \<lparr>diagram = d', title = t', theme = th', width = w', height = h'\<rparr>
              | _ \<Rightarrow>
                  Inl (issues_of d @ issues_of t @ issues_of th @ issues_of w @ issues_of h))
      | _ \<Rightarrow> Inl [invalid_type []])"

section \<open>RenderDiagram: the render effect\<close>

text \<open>
  The component state: the four \<^verbatim>\<open>useState\<close> cells and the surface
  \<^verbatim>\<open>diagramRef.current\<close>, which is \<open>None\<close> while the ref is null and otherwise holds the
  \<^verbatim>\<open>innerHTML\<close> of the element.
\<close>

record diagram_state =
  isLoading :: bool
  error :: "string option"
  isInitialized :: bool
  lastValidSvg :: "string option"
  innerHTML :: "string option"

definition diagram_init :: diagram_state where
  "diagram_init = \<lparr>isLoading = True, error = None, isInitialized = False,
     lastValidSvg = None, innerHTML = Some []\<rparr>"

text \<open>
  \<^verbatim>\<open>isComplete\<close>: the thread's generation stage is \<^verbatim>\<open>COMPLETE\<close> or \<^verbatim>\<open>IDLE\<close>
  (\<open>None\<close>: no thread).
\<close>

definition isComplete :: "string option \<Rightarrow> bool" where
  "isComplete generationStage =
     (generationStage = Some ''COMPLETE'' \<or> generationStage = Some ''IDLE'')"

text \<open>
  What \<^verbatim>\<open>await mermaid.render(id, text)\<close> gives: the SVG, or a thrown value that is an
  \<^verbatim>\<open>Error\<close> with its message or some other value. The library is a parameter.
\<close>

datatype thrown = Error string | Thrown jsval

datatype render_result = Svg string | Throws thrown

definition error_message :: "thrown \<Rightarrow> string" where
  "error_message err =
     (case err of
        Error message \<Rightarrow> ''Invalid diagram syntax: '' @ message
      | Thrown _ \<Rightarrow> ''Failed to render diagram'')"

text \<open>A string or null cell is truthy when it holds a non-empty string.\<close>

definition truthy_cell :: "string option \<Rightarrow> bool" where
  "truthy_cell c = (case c of Some s \<Rightarrow> s \<noteq> [] | None \<Rightarrow> False)"

text \<open>Assigning \<^verbatim>\<open>innerHTML\<close> under the guard \<^verbatim>\<open>if (diagramRef.current)\<close>.\<close>

definition set_surface :: "string \<Rightarrow> diagram_state \<Rightarrow> diagram_state" where
  "set_surface html st = st\<lparr>innerHTML := map_option (\<lambda>_. html) (innerHTML st)\<rparr>"

text \<open>
  What \<^verbatim>\<open>renderDiagram\<close> reads from the render that created the effect: the diagram
  text and, in the two branches after the \<^verbatim>\<open>await\<close>, \<^verbatim>\<open>isComplete\<close>, \<^verbatim>\<open>error\<close> and
  \<^verbatim>\<open>lastValidSvg\<close> as they were at that render.
\<close>

record render_closure =
  c_diagram :: string
  c_complete :: bool
  c_error :: "string option"
  c_lastValidSvg :: "string option"

text \<open>
  \<^verbatim>\<open>renderDiagram()\<close> up to its \<^verbatim>\<open>await\<close>: it sets \<^verbatim>\<open>isLoading\<close>, clears the error
  cell, clears the surface and calls \<^verbatim>\<open>mermaid.render\<close>.
\<close>

definition renderDiagram_begin :: "diagram_state \<Rightarrow> diagram_state" where
  "renderDiagram_begin st = set_surface [] (st\<lparr>isLoading := True, error := None\<rparr>)"

text \<open>
  \<^verbatim>\<open>renderDiagram()\<close> after its \<^verbatim>\<open>await\<close>, on the state the widget has when the promise
  of \<^verbatim>\<open>mermaid.render\<close> settles: the \<^verbatim>\<open>try\<close> branch for an SVG, the \<^verbatim>\<open>catch\<close> branch
  for a thrown value, and the \<^verbatim>\<open>finally\<close> block. Nothing in it asks whether a later
  render has begun.
\<close>

definition renderDiagram_settle ::
    "render_closure \<Rightarrow> render_result \<Rightarrow> diagram_state \<Rightarrow> diagram_state" where
  "renderDiagram_settle c settled st =
     (case settled of
        Svg svg \<Rightarrow>
          (let st3 = st\<lparr>lastValidSvg := Some svg\<rparr>;
               st4 = (if c_complete c \<or> \<not> truthy_cell (c_error c) then set_surface svg st3
                      else st3)
           in st4\<lparr>isLoading := False\<rparr>)
      | Throws err \<Rightarrow>
          (let st3 = st\<lparr>error := Some (error_message err)\<rparr>;
               st4 = (if c_complete c then set_surface [] st3
                      else (case c_lastValidSvg c of
                              Some svg \<Rightarrow> (if svg \<noteq> [] then set_surface svg st3 else st3)
                            | None \<Rightarrow> st3))
           in st4\<lparr>isLoading := False\<rparr>))"



section \<open>RenderDiagram: the mounted widget\<close>

text \<open>
  What a render of the widget gets from outside: the diagram text and the theme of its
  props, and the generation stage of the thread.
\<close>

record diagram_env =
  env_diagram :: string
  env_theme :: string
  env_stage :: "string option"

definition closure_of :: "diagram_env \<Rightarrow> diagram_state \<Rightarrow> render_closure" where
  "closure_of env st =
     \<lparr>c_diagram = env_diagram env, c_complete = isComplete (env_stage env),
      c_error = error st, c_lastValidSvg = lastValidSvg st\<rparr>"

text \<open>
  The mounted widget: its state, the dependency arrays of the two effects as the last
  render left them (\<open>None\<close> before the first render), and the renders whose promise has
  not settled yet, oldest first, each with the closure of its effect.
\<close>

type_synonym init_deps = "string \<times> bool"
type_synonym render_deps = "bool \<times> string \<times> string \<times> bool \<times> string option \<times> string option"

record diagram_widget =
  dstate :: diagram_state
  last_init_deps :: "init_deps option"
  last_render_deps :: "render_deps option"
  renders :: "render_closure list"

definition diagram_mount :: diagram_widget where
  "diagram_mount =
     \<lparr>dstate = diagram_init, last_init_deps = None, last_render_deps = None, renders = []\<rparr>"

text \<open>
  The dependency arrays of a render: \<^verbatim>\<open>[theme, isInitialized]\<close> and
  \<^verbatim>\<open>[isInitialized, diagram, diagramId, isComplete, lastValidSvg, error]\<close>.
\<close>

definition init_deps_of :: "diagram_env \<Rightarrow> diagram_state \<Rightarrow> init_deps" where
  "init_deps_of env st = (env_theme env, isInitialized st)"

definition render_deps_of :: "string \<Rightarrow> diagram_env \<Rightarrow> diagram_state \<Rightarrow> render_deps" where
  "render_deps_of diagramId env st =
     (isInitialized st, env_diagram env, diagramId, isComplete (env_stage env),
      lastValidSvg st, error st)"

text \<open>
  The two effects, each with the state \<open>st\<close> of the render that created it. The first
  initialises the library once. The second returns at once unless that render saw the
  library initialised, the diagram text is non-empty and the ref is attached; otherwise
  it starts \<^verbatim>\<open>renderDiagram\<close>, which stays pending. It returns no cleanup function.
\<close>

definition initialize_effect :: "diagram_state \<Rightarrow> diagram_widget \<Rightarrow> diagram_widget" where
  "initialize_effect st w =
     (if \<not> isInitialized st then w\<lparr>dstate := (dstate w)\<lparr>isInitialized := True\<rparr>\<rparr> else w)"

definition render_effect :: "diagram_env \<Rightarrow> diagram_state \<Rightarrow> diagram_widget \<Rightarrow> diagram_widget" where
  "render_effect env st w =
     (if \<not> isInitialized st \<or> env_diagram env = [] \<or> innerHTML (dstate w) = None then w
      else w\<lparr>dstate := renderDiagram_begin (dstate w),
             renders := renders w @ [closure_of env st]\<rparr>)"

text \<open>
  A render of the widget and its commit: each effect runs when its dependency array
  differs from the one of the last render (always after the first render), the first
  effect before the second, and the arrays of this render are kept.
\<close>

definition react_render :: "string \<Rightarrow> diagram_env \<Rightarrow> diagram_widget \<Rightarrow> diagram_widget" where
  "react_render diagramId env w =
     (let st = dstate w;
          d1 = init_deps_of env st;
          d2 = render_deps_of diagramId env st;
          w1 = (if last_init_deps w = Some d1 then w else initialize_effect st w);
          w2 = (if last_render_deps w = Some d2 then w1 else render_effect env st w1)
      in w2\<lparr>last_init_deps := Some d1, last_render_deps := Some d2\<rparr>)"

text \<open>
  The promise of the pending render at an index settles: its continuation runs on the
  current state, with what the library gives for the text of its closure, and leaves
  the list. The library is a parameter.
\<close>

definition settle ::
    "(string \<Rightarrow> string \<Rightarrow> render_result) \<Rightarrow> string \<Rightarrow> nat \<Rightarrow> diagram_widget
       \<Rightarrow> diagram_widget" where
  "settle mermaid_render diagramId n w =
     (if n < length (renders w)
      then (let c = renders w ! n
            in w\<lparr>dstate :=
                   renderDiagram_settle c
                     (mermaid_render (''diagram-'' @ diagramId) (c_diagram c)) (dstate w),
                 renders := take n (renders w) @ drop (Suc n) (renders w)\<rparr>)
      else w)"




text \<open>
  The widget under unchanged props: a state change is followed by a render; a render
  that finds a dependency array changed runs the effect; a pending promise settles when
  no render is due. The widget is at rest when no render is due and nothing is pending.
\<close>

definition render_due :: "string \<Rightarrow> diagram_env \<Rightarrow> diagram_widget \<Rightarrow> bool" where
  "render_due diagramId env w =
     (last_init_deps w \<noteq> Some (init_deps_of env (dstate w)) \<or>
      last_render_deps w \<noteq> Some (render_deps_of diagramId env (dstate w)))"

definition at_rest :: "string \<Rightarrow> diagram_env \<Rightarrow> diagram_widget \<Rightarrow> bool" where
  "at_rest diagramId env w = (\<not> render_due diagramId env w \<and> renders w = [])"

definition widget_step ::
    "(string \<Rightarrow> string \<Rightarrow> render_result) \<Rightarrow> string \<Rightarrow> diagram_env \<Rightarrow> diagram_widget
       \<Rightarrow> diagram_widget" where
  "widget_step mermaid_render diagramId env w =
     (if render_due diagramId env w then react_render diagramId env w
      else settle mermaid_render diagramId 0 w)"

text \<open>
  The states the widget passes through, from its second render on, under unchanged props
  with a text on which the library throws: nothing is cached, every pending render is
  for that text, and either the error cell is empty with a render pending, or it is set
  and the last render saw it empty.
\<close>

definition rerun_loop :: "string \<Rightarrow> diagram_env \<Rightarrow> diagram_widget \<Rightarrow> bool" where
  "rerun_loop diagramId env w =
     (isInitialized (dstate w) \<and> innerHTML (dstate w) \<noteq> None \<and>
      lastValidSvg (dstate w) = None \<and>
      last_init_deps w = Some (env_theme env, True) \<and>
      list_all (\<lambda>c. c_diagram c = env_diagram env) (renders w) \<and>
      (\<exists>seen. last_render_deps w
           = Some (True, env_diagram env, diagramId, isComplete (env_stage env), None, seen) \<and>
         (if error (dstate w) = None then renders w \<noteq> [] else seen = None)))"




section \<open>Facts about the selection list\<close>

lemma indexOf_ge: "- 1 \<le> indexOf xs v"
  by (induction xs) (auto simp: Let_def)

lemma indexOf_found: "(indexOf xs v > -1) = (v \<in> set xs)"
  by (induction xs) (auto simp: Let_def)

lemma indexOf_splice: "v \<in> set xs \<Longrightarrow> splice xs (nat (indexOf xs v)) 1 = remove1 v xs"
proof (induction xs)
  case Nil
  then show ?case by simp
next
  case (Cons x xs)
  show ?case
  proof (cases "x = v")
    case True
    then show ?thesis by (simp add: splice_def)
  next
    case False
    with Cons.prems have mem: "v \<in> set xs" by simp
    then have pos: "indexOf xs v > -1" by (simp add: indexOf_found)
    then have "nat (indexOf xs v + 1) = Suc (nat (indexOf xs v))" by simp
    with False pos Cons.IH [OF mem] show ?thesis
      by (simp add: splice_def Let_def)
  qed
qed

lemma handleToggleCard_Some:
  "handleToggleCard (Some st) v =
     Some \<lparr>selectedValues =
       (if v \<in> set (selectedValues st) then remove1 v (selectedValues st)
        else selectedValues st @ [v])\<rparr>"
proof (cases "v \<in> set (selectedValues st)")
  case True
  from indexOf_splice [OF True] True show ?thesis
    by (simp add: handleToggleCard_def Let_def indexOf_found)
next
  case False
  then show ?thesis
    by (simp add: handleToggleCard_def Let_def indexOf_found)
qed

lemma remove1_member_count:
  "count_list xs v \<le> 1 \<Longrightarrow> v \<notin> set (remove1 v xs)"
proof (induction xs)
  case Nil
  then show ?case by simp
next
  case (Cons x xs)
  show ?case
  proof (cases "x = v")
    case True
    with Cons.prems have "count_list xs v = 0" by simp
    with True show ?thesis by (simp add: count_list_0_iff)
  next
    case False
    with Cons show ?thesis by simp
  qed
qed

lemma handleToggleCard_distinct:
  "distinct (selectedValues st) \<Longrightarrow> handleToggleCard (Some st) v = Some st' \<Longrightarrow>
     distinct (selectedValues st')"
  by (auto simp: handleToggleCard_Some split: if_splits)

lemma toggle_all_distinct:
  "distinct (selectedValues st) \<Longrightarrow>
     \<exists>st'. toggle_all (Some st) vs = Some st' \<and> distinct (selectedValues st')"
proof (induction vs arbitrary: st)
  case Nil
  then show ?case by (simp add: toggle_all_def)
next
  case (Cons v vs)
  obtain st1 where st1: "handleToggleCard (Some st) v = Some st1"
    by (simp add: handleToggleCard_Some)
  with Cons.prems have "distinct (selectedValues st1)"
    by (rule handleToggleCard_distinct)
  from Cons.IH [OF this] st1 show ?case
    by (simp add: toggle_all_def)
qed

lemma distinct_count_le_1: "distinct xs \<Longrightarrow> count_list xs v \<le> 1"
  by (induction xs) (auto simp: count_list_0_iff)

text \<open>
  Every selection reached from the initial empty selection by toggle clicks holds each
  value at most once.
\<close>

lemma reachable_selection_distinct:
  "\<exists>st'. toggle_all DataCard_init vs = Some st' \<and> distinct (selectedValues st')"
  unfolding DataCard_init_def by (rule toggle_all_distinct) simp

text \<open>
  C1, as stated, at a list that holds a value twice: \<^verbatim>\<open>indexOf\<close> finds the first
  entry, \<^verbatim>\<open>splice\<close> removes that one entry, and the value is still selected.
\<close>

theorem C1_toggle_duplicate_counterexample:
  "''a'' \<in> set (selectedValues \<lparr>selectedValues = [''a'', ''a'']\<rparr>) \<and>
   handleToggleCard (Some \<lparr>selectedValues = [''a'', ''a'']\<rparr>) ''a''
     = Some \<lparr>selectedValues = [''a'']\<rparr> \<and>
   ''a'' \<in> set (selectedValues \<lparr>selectedValues = [''a'']\<rparr>)"
  by (simp add: handleToggleCard_def splice_def)

text \<open>
  C1 (amended): for every selection state that holds the value \<open>v\<close> at most once (as
  every state reached from the initial empty selection does, by
  \<open>reachable_selection_distinct\<close>), one call of \<^verbatim>\<open>handleToggleCard(v)\<close> flips the
  membership of \<open>v\<close> in the selection: absent becomes selected, selected becomes
  absent. A second call restores the original membership.
\<close>

theorem C1_toggle_flips_membership:
  assumes "count_list (selectedValues st) v \<le> 1"
  shows "\<exists>st' st''.
           handleToggleCard (Some st) v = Some st' \<and>
           handleToggleCard (Some st') v = Some st'' \<and>
           (v \<in> set (selectedValues st')) = (v \<notin> set (selectedValues st)) \<and>
           (v \<in> set (selectedValues st'')) = (v \<in> set (selectedValues st))"
proof (cases "v \<in> set (selectedValues st)")
  case True
  with assms have "v \<notin> set (remove1 v (selectedValues st))"
    by (simp add: remove1_member_count)
  with True show ?thesis by (simp add: handleToggleCard_Some)
next
  case False
  then show ?thesis by (simp add: handleToggleCard_Some remove1_append)
qed

theorem C1_toggle_flips_membership_witness:
  "count_list (selectedValues \<lparr>selectedValues = [''a'', ''b'']\<rparr>) ''a'' \<le> 1 \<and>
   (\<exists>st' st''.
      handleToggleCard (Some \<lparr>selectedValues = [''a'', ''b'']\<rparr>) ''a'' = Some st' \<and>
      handleToggleCard (Some st') ''a'' = Some st'' \<and>
      selectedValues st' = [''b''] \<and> selectedValues st'' = [''b'', ''a''])"
proof -
  have h: "count_list (selectedValues \<lparr>selectedValues = [''a'', ''b'']\<rparr>) ''a'' \<le> 1"
    by simp
  from C1_toggle_flips_membership [OF h] show ?thesis
    using h by (simp add: handleToggleCard_Some)
qed

text \<open>
  C10: for every selection state and values \<open>v\<close>, \<open>w\<close> with \<open>w \<noteq> v\<close>, a call of
  \<^verbatim>\<open>handleToggleCard(v)\<close> leaves the membership of \<open>w\<close> unchanged; the new list is
  the old one with \<open>v\<close> appended or with one entry \<open>v\<close> deleted, so the values other
  than \<open>v\<close> stand in the same order as before.
\<close>

theorem C10_toggle_frame:
  assumes "w \<noteq> v"
  shows "\<exists>st'.
           handleToggleCard (Some st) v = Some st' \<and>
           (w \<in> set (selectedValues st')) = (w \<in> set (selectedValues st)) \<and>
           filter (\<lambda>x. x \<noteq> v) (selectedValues st') = filter (\<lambda>x. x \<noteq> v) (selectedValues st) \<and>
           (selectedValues st' = selectedValues st @ [v] \<or>
            selectedValues st' = remove1 v (selectedValues st))"
proof -
  have f: "filter (\<lambda>x. x \<noteq> v) (remove1 v xs) = filter (\<lambda>x. x \<noteq> v) xs" for xs
    by (induction xs) auto
  from assms show ?thesis
    by (auto simp: handleToggleCard_Some f)
qed

theorem C10_toggle_frame_witness:
  "''b'' \<noteq> ''a'' \<and>
   (\<exists>st'.
      handleToggleCard (Some \<lparr>selectedValues = [''c'', ''a'', ''b'']\<rparr>) ''a'' = Some st' \<and>
      selectedValues st' = [''c'', ''b''] \<and>
      ''b'' \<in> set (selectedValues st'))"
proof -
  have h: "''b'' \<noteq> ''a''" by simp
  from C10_toggle_frame [OF h, of "\<lparr>selectedValues = [''c'', ''a'', ''b'']\<rparr>"] show ?thesis
    using h by (simp add: handleToggleCard_Some)
qed

section \<open>Facts about the edit buffer\<close>

lemmas table_eval = ui_run_def on_row_def handleFieldChange_def table_init_def table_mount_def
  issue_key_def issue_1_def issue_2_def field_value_def of_nullable_def Number_of_numeral_def
  digit_of_def handleSave_def handleSave_begin_def handleSave_settle_def save_changes_def Let_def

lemma handleFieldChange_keys:
  "fst ` set (editState (handleFieldChange Number st i field v))
     \<subseteq> insert i (fst ` set (editState st))"
proof (cases "isSaving st")
  case True
  then show ?thesis by (auto simp: handleFieldChange_def)
next
  case False
  then show ?thesis by (simp add: handleFieldChange_def dom_update)
qed

lemma handleSave_keys:
  "fst ` set (editState (snd (handleSave onSave st))) \<subseteq> fst ` set (editState st)"
  by (auto simp: handleSave_def Let_def split: outcome.splits)

lemma handleSave_begin_editState:
  "editState (snd (handleSave_begin st)) = editState st"
  by (simp add: handleSave_begin_def Let_def)

lemma handleSave_settle_keys:
  "fst ` set (editState (handleSave_settle settled st)) \<subseteq> fst ` set (editState st)"
  by (cases settled) (simp_all add: handleSave_settle_def)

lemma on_row_issues_prop: "issues_prop (on_row w row change) = issues_prop w"
  by (simp add: on_row_def)

lemma on_row_keys:
  assumes "\<And>k. fst ` set (editState (change k)) \<subseteq> insert k (fst ` set (editState (table w)))"
  shows "fst ` set (editState (table (on_row w row change)))
     \<subseteq> fst ` set (editState (table w)) \<union> issue_key ` set (issues_prop w)"
proof (cases "row < length (issues_prop w) \<and> \<not> isSaving (table w)")
  case True
  then have mem: "issue_key (issues_prop w ! row) \<in> issue_key ` set (issues_prop w)" by simp
  from True have eq: "table (on_row w row change) = change (issue_key (issues_prop w ! row))"
    by (simp add: on_row_def)
  from mem
  have "insert (issue_key (issues_prop w ! row)) (fst ` set (editState (table w)))
      \<subseteq> fst ` set (editState (table w)) \<union> issue_key ` set (issues_prop w)"
    by (simp only: insert_subset Un_iff simp_thms Un_upper1)
  with assms [of "issue_key (issues_prop w ! row)"] show ?thesis
    unfolding eq by (rule subset_trans)
next
  case False
  then have "on_row w row change = w" by (auto simp: on_row_def)
  then show ?thesis by simp
qed

lemma ui_step_keys:
  "fst ` set (editState (table (ui_step Number onSave w ev)))
     \<subseteq> fst ` set (editState (table w)) \<union> issue_key ` set (issues_prop w)"
proof (cases ev)
  case (TitleInput row s)
  show ?thesis unfolding TitleInput ui_step.simps
    by (rule on_row_keys [OF handleFieldChange_keys])
next
  case (DescriptionInput row s)
  show ?thesis unfolding DescriptionInput ui_step.simps
    by (rule on_row_keys [OF handleFieldChange_keys])
next
  case (AssigneeSelect row s)
  show ?thesis unfolding AssigneeSelect ui_step.simps
    by (rule on_row_keys [OF handleFieldChange_keys])
next
  case (StatusSelect row s)
  show ?thesis unfolding StatusSelect ui_step.simps
    by (rule on_row_keys [OF handleFieldChange_keys])
next
  case (PrioritySelect row s)
  show ?thesis unfolding PrioritySelect ui_step.simps
    by (rule on_row_keys [OF handleFieldChange_keys])
next
  case SaveClick
  have "editState (table (ui_step Number onSave w SaveClick)) = editState (table w)"
    using handleSave_begin_editState [of "table w"]
    by (cases "handleSave_begin (table w)") (auto split: option.splits)
  with SaveClick show ?thesis by simp
next
  case SaveSettled
  show ?thesis
  proof (cases "saves w")
    case Nil
    with SaveSettled show ?thesis by simp
  next
    case (Cons changes rest)
    with SaveSettled handleSave_settle_keys [of "onSave changes" "table w"] show ?thesis
      by auto
  qed
next
  case (IssuesChange supplied)
  then show ?thesis by simp
qed

lemma ui_step_issues_prop:
  "issues_prop (ui_step Number onSave w ev)
     = (case ev of IssuesChange supplied \<Rightarrow> supplied | _ \<Rightarrow> issues_prop w)"
  by (cases ev)
     (auto simp: on_row_issues_prop split: list.splits prod.splits option.splits)

lemma supplied_issues_first: "set supplied \<subseteq> set (supplied_issues supplied evs)"
proof (induction evs arbitrary: supplied)
  case Nil
  then show ?case by simp
next
  case (Cons ev evs)
  then show ?case by (cases ev) auto
qed

lemma supplied_issues_step:
  "set (supplied_issues (issues_prop (ui_step Number onSave w ev)) evs)
     \<subseteq> set (supplied_issues (issues_prop w) (ev # evs))"
  unfolding ui_step_issues_prop by (cases ev) auto

lemma ui_run_keys:
  "fst ` set (editState (table (ui_run Number onSave w evs)))
     \<subseteq> fst ` set (editState (table w)) \<union> issue_key ` set (supplied_issues (issues_prop w) evs)"
  unfolding ui_run_def
proof (induction evs arbitrary: w)
  case Nil
  then show ?case by simp
next
  case (Cons ev evs)
  let ?w1 = "ui_step Number onSave w ev"
  have a: "fst ` set (editState (table (foldl (ui_step Number onSave) ?w1 evs)))
      \<subseteq> fst ` set (editState (table ?w1))
        \<union> issue_key ` set (supplied_issues (issues_prop ?w1) evs)"
    by (rule Cons.IH)
  have b: "fst ` set (editState (table ?w1))
      \<subseteq> fst ` set (editState (table w)) \<union> issue_key ` set (issues_prop w)"
    by (rule ui_step_keys)
  have c: "set (issues_prop w) \<subseteq> set (supplied_issues (issues_prop w) (ev # evs))"
    by (rule supplied_issues_first)
  have d: "set (supplied_issues (issues_prop ?w1) evs)
      \<subseteq> set (supplied_issues (issues_prop w) (ev # evs))"
    by (rule supplied_issues_step)
  have "fst ` set (editState (table (foldl (ui_step Number onSave) ?w1 evs)))
      \<subseteq> fst ` set (editState (table w))
        \<union> issue_key ` set (supplied_issues (issues_prop w) (ev # evs))"
  proof
    fix k
    assume "k \<in> fst ` set (editState (table (foldl (ui_step Number onSave) ?w1 evs)))"
    with a have "k \<in> fst ` set (editState (table ?w1))
        \<or> k \<in> issue_key ` set (supplied_issues (issues_prop ?w1) evs)"
      by (simp only: subset_iff Un_iff)
    then show "k \<in> fst ` set (editState (table w))
        \<union> issue_key ` set (supplied_issues (issues_prop w) (ev # evs))"
    proof
      assume "k \<in> fst ` set (editState (table ?w1))"
      with b have "k \<in> fst ` set (editState (table w)) \<or> k \<in> issue_key ` set (issues_prop w)"
        by (simp only: subset_iff Un_iff)
      with c show ?thesis by (auto simp only: subset_iff Un_iff image_iff)
    next
      assume "k \<in> issue_key ` set (supplied_issues (issues_prop ?w1) evs)"
      with d show ?thesis by (auto simp only: subset_iff Un_iff image_iff)
    qed
  qed
  then show ?case by simp
qed

lemma no_issues_change_supplied:
  "\<forall>ev \<in> set evs. \<not> issues_change ev \<Longrightarrow> supplied_issues supplied evs = supplied"
proof (induction evs)
  case Nil
  then show ?case by simp
next
  case (Cons ev evs)
  then show ?case by (cases ev) simp_all
qed

lemma no_issues_change_prop:
  "\<forall>ev \<in> set evs. \<not> issues_change ev \<Longrightarrow>
     issues_prop (ui_run Number onSave w evs) = issues_prop w"
  unfolding ui_run_def
proof (induction evs arbitrary: w)
  case Nil
  then show ?case by simp
next
  case (Cons ev evs)
  from Cons.prems have "\<not> issues_change ev" by simp
  then have "(case ev of IssuesChange supplied \<Rightarrow> supplied | _ \<Rightarrow> issues_prop w) = issues_prop w"
    by (cases ev) simp_all
  then have "issues_prop (ui_step Number onSave w ev) = issues_prop w"
    by (simp only: ui_step_issues_prop)
  with Cons show ?case by simp
qed

text \<open>
  C5, as stated, when the \<^verbatim>\<open>issues\<close> prop changes: the title of \<open>issue_1\<close> is edited,
  then the table is rendered with \<open>issue_2\<close> alone. The buffer still holds the key of
  \<open>issue_1\<close>, which is not the key of a supplied issue any more, and a click on the save
  button passes it to \<^verbatim>\<open>onSave\<close>.
\<close>

theorem C5_prop_change_counterexample:
  "map fst (editState (table (ui_run Number_of_numeral (\<lambda>_. Resolved) (table_mount [issue_1])
      [TitleInput 0 ''x'', IssuesChange [issue_2]]))) = [''LIN-1''] \<and>
   map issue_key (issues_prop (ui_run Number_of_numeral (\<lambda>_. Resolved) (table_mount [issue_1])
      [TitleInput 0 ''x'', IssuesChange [issue_2]])) = [''77aa''] \<and>
   saves (ui_run Number_of_numeral (\<lambda>_. Resolved) (table_mount [issue_1])
      [TitleInput 0 ''x'', IssuesChange [issue_2], SaveClick])
     = [[(''LIN-1'', [(''title'', JStr ''x'')])]]"
  by (simp add: table_eval)

text \<open>
  C5 (amended): after every sequence of events from the mounted table, every key of the
  edit buffer is the row key \<^verbatim>\<open>identifier ?? id\<close> of an issue that was supplied to the
  table at its mount or at a later render; and over events among which the \<^verbatim>\<open>issues\<close>
  prop does not change, a buffer whose keys are row keys of the supplied issues (the
  empty buffer, for one) stays so.
\<close>

theorem C5_buffer_keys_reference_supplied_issues:
  "(\<forall>k \<in> fst ` set (editState (table (ui_run Number onSave (table_mount supplied) evs))).
      k \<in> issue_key ` set (supplied_issues supplied evs)) \<and>
   ((\<forall>k \<in> fst ` set (editState (table w)). k \<in> issue_key ` set (issues_prop w)) \<and>
    (\<forall>ev \<in> set evs. \<not> issues_change ev) \<longrightarrow>
      (\<forall>k \<in> fst ` set (editState (table (ui_run Number onSave w evs))).
         k \<in> issue_key ` set (issues_prop (ui_run Number onSave w evs))))"
proof (intro conjI impI ballI)
  fix k
  assume "k \<in> fst ` set (editState (table (ui_run Number onSave (table_mount supplied) evs)))"
  with ui_run_keys [of Number onSave "table_mount supplied" evs]
  show "k \<in> issue_key ` set (supplied_issues supplied evs)"
    by (auto simp: table_mount_def table_init_def)
next
  fix k
  assume h: "(\<forall>k \<in> fst ` set (editState (table w)). k \<in> issue_key ` set (issues_prop w)) \<and>
    (\<forall>ev \<in> set evs. \<not> issues_change ev)"
    and k: "k \<in> fst ` set (editState (table (ui_run Number onSave w evs)))"
  from h have same: "supplied_issues (issues_prop w) evs = issues_prop w"
    and unchanged: "issues_prop (ui_run Number onSave w evs) = issues_prop w"
    by (simp_all add: no_issues_change_supplied no_issues_change_prop)
  from k ui_run_keys [of Number onSave w evs]
  have "k \<in> fst ` set (editState (table w)) \<or> k \<in> issue_key ` set (issues_prop w)"
    unfolding same by (simp only: subset_iff Un_iff)
  with h show "k \<in> issue_key ` set (issues_prop (ui_run Number onSave w evs))"
    unfolding unchanged by blast
qed

theorem C5_buffer_keys_reference_supplied_issues_witness:
  "map fst (editState (table (ui_run Number_of_numeral (\<lambda>_. Resolved) (table_mount [issue_1, issue_2])
      [TitleInput 0 ''x'', PrioritySelect 1 ''3'', TitleInput 7 ''y'']))) = [''LIN-1'', ''77aa''] \<and>
   set [''LIN-1'', ''77aa'']
     \<subseteq> issue_key ` set (issues_prop (ui_run Number_of_numeral (\<lambda>_. Resolved)
         (table_mount [issue_1, issue_2])
         [TitleInput 0 ''x'', PrioritySelect 1 ''3'', TitleInput 7 ''y''])) \<and>
   set [''LIN-1'', ''77aa'']
     \<subseteq> issue_key ` set (supplied_issues [issue_1, issue_2]
         [TitleInput 0 ''x'', PrioritySelect 1 ''3'', TitleInput 7 ''y''])"
  using C5_buffer_keys_reference_supplied_issues [of Number_of_numeral "\<lambda>_. Resolved"
      "[issue_1, issue_2]" "[TitleInput 0 ''x'', PrioritySelect 1 ''3'', TitleInput 7 ''y'']"
      "table_mount [issue_1, issue_2]"]
  by (simp add: table_eval)

lemma handleSave_split:
  "handleSave onSave st =
     (case handleSave_begin st of
        (None, st1) \<Rightarrow> (None, st1)
      | (Some changes, st1) \<Rightarrow>
          ((case onSave changes of Resolved \<Rightarrow> None | Rejected e \<Rightarrow> Some e),
           handleSave_settle (onSave changes) st1))"
  by (simp add: handleSave_def handleSave_begin_def handleSave_settle_def Let_def
      split: outcome.splits)

lemma handleFieldChange_saving: "isSaving st \<Longrightarrow> handleFieldChange Number st i field v = st"
  by (simp add: handleFieldChange_def)

lemma handleFieldChange_calls_saving:
  "isSaving st \<Longrightarrow>
     foldl (\<lambda>s (i, field, v). handleFieldChange Number s i field v) st calls = st"
  by (induction calls) (auto simp: handleFieldChange_saving)

lemma ui_step_saving:
  assumes "isSaving (table w)" and "ev \<noteq> SaveSettled"
  shows "table (ui_step Number onSave w ev) = table w"
  using assms by (cases ev) (simp_all add: on_row_def)

lemma ui_run_saving:
  "isSaving (table w) \<Longrightarrow> SaveSettled \<notin> set evs \<Longrightarrow>
     table (ui_run Number onSave w evs) = table w"
  unfolding ui_run_def
proof (induction evs arbitrary: w)
  case Nil
  then show ?case by simp
next
  case (Cons ev evs)
  from Cons.prems have "ev \<noteq> SaveSettled" by auto
  with Cons.prems(1) have "table (ui_step Number onSave w ev) = table w"
    by (rule ui_step_saving)
  with Cons.prems Cons.IH [of "ui_step Number onSave w ev"] show ?case by simp
qed

text \<open>
  C9: a call of \<^verbatim>\<open>handleFieldChange\<close> while \<^verbatim>\<open>isSaving\<close> is true leaves the state as it
  is. When \<^verbatim>\<open>handleSave\<close> calls \<^verbatim>\<open>onSave\<close>, it has set \<^verbatim>\<open>isSaving\<close> before, with the
  buffer as it was; any calls of \<^verbatim>\<open>handleFieldChange\<close> between that call and the
  settling of its promise leave the state as it is, so the save ends as it does with no
  call in between, with \<^verbatim>\<open>isSaving\<close> false. In the mounted table, no event but the
  settling of the promise changes the state while \<^verbatim>\<open>isSaving\<close> is true.
\<close>

theorem C9_no_edit_while_saving:
  "(isSaving st \<longrightarrow> handleFieldChange Number st i field v = st) \<and>
   (handleSave_begin st = (Some changes, st1) \<longrightarrow>
      changes = save_changes (editState st) \<and>
      isSaving st1 \<and> editState st1 = editState st \<and>
      foldl (\<lambda>s (i, field, v). handleFieldChange Number s i field v) st1 calls = st1 \<and>
      handleSave_settle (onSave changes)
          (foldl (\<lambda>s (i, field, v). handleFieldChange Number s i field v) st1 calls)
        = snd (handleSave onSave st) \<and>
      \<not> isSaving (snd (handleSave onSave st))) \<and>
   (isSaving (table w) \<and> SaveSettled \<notin> set evs \<longrightarrow>
      table (ui_run Number onSave w evs) = table w)"
proof (intro conjI impI)
  assume "isSaving st"
  then show "handleFieldChange Number st i field v = st" by (rule handleFieldChange_saving)
next
  assume b: "handleSave_begin st = (Some changes, st1)"
  then show c: "changes = save_changes (editState st)"
    by (auto simp: handleSave_begin_def Let_def split: if_splits)
  from b show s: "isSaving st1"
    by (auto simp: handleSave_begin_def Let_def split: if_splits)
  from b show "editState st1 = editState st"
    by (auto simp: handleSave_begin_def Let_def split: if_splits)
  from s show f: "foldl (\<lambda>s (i, field, v). handleFieldChange Number s i field v) st1 calls = st1"
    by (rule handleFieldChange_calls_saving)
  from b show "handleSave_settle (onSave changes)
          (foldl (\<lambda>s (i, field, v). handleFieldChange Number s i field v) st1 calls)
        = snd (handleSave onSave st)"
    unfolding f by (simp add: handleSave_split)
  from b show "\<not> isSaving (snd (handleSave onSave st))"
    by (simp add: handleSave_split handleSave_settle_def split: outcome.splits)
next
  assume "isSaving (table w) \<and> SaveSettled \<notin> set evs"
  then show "table (ui_run Number onSave w evs) = table w"
    by (simp add: ui_run_saving)
qed

theorem C9_no_edit_while_saving_witness:
  "handleSave_begin \<lparr>editState = [(''LIN-1'', [(''title'', JStr ''x'')])], isSaving = False\<rparr>
     = (Some [(''LIN-1'', [(''title'', JStr ''x'')])],
        \<lparr>editState = [(''LIN-1'', [(''title'', JStr ''x'')])], isSaving = True\<rparr>) \<and>
   foldl (\<lambda>s (i, field, v). handleFieldChange Number_of_numeral s i field v)
     \<lparr>editState = [(''LIN-1'', [(''title'', JStr ''x'')])], isSaving = True\<rparr>
     [(''LIN-1'', ''title'', Some ''y''), (''77aa'', ''priority'', Some ''1'')]
     = \<lparr>editState = [(''LIN-1'', [(''title'', JStr ''x'')])], isSaving = True\<rparr> \<and>
   handleSave_settle (Rejected (JStr ''offline''))
     (foldl (\<lambda>s (i, field, v). handleFieldChange Number_of_numeral s i field v)
        \<lparr>editState = [(''LIN-1'', [(''title'', JStr ''x'')])], isSaving = True\<rparr>
        [(''LIN-1'', ''title'', Some ''y''), (''77aa'', ''priority'', Some ''1'')])
     = \<lparr>editState = [(''LIN-1'', [(''title'', JStr ''x'')])], isSaving = False\<rparr> \<and>
   table (ui_run Number_of_numeral (\<lambda>_. Resolved) (table_mount [issue_1, issue_2])
       [TitleInput 0 ''x'', SaveClick, TitleInput 0 ''y'', PrioritySelect 1 ''1'', SaveClick])
     = \<lparr>editState = [(''LIN-1'', [(''title'', JStr ''x'')])], isSaving = True\<rparr> \<and>
   table (ui_run Number_of_numeral (\<lambda>_. Resolved) (table_mount [issue_1, issue_2])
       [TitleInput 0 ''x'', SaveClick, TitleInput 0 ''y'', SaveSettled])
     = \<lparr>editState = [], isSaving = False\<rparr>"
proof -
  have b: "handleSave_begin \<lparr>editState = [(''LIN-1'', [(''title'', JStr ''x'')])], isSaving = False\<rparr>
     = (Some [(''LIN-1'', [(''title'', JStr ''x'')])],
        \<lparr>editState = [(''LIN-1'', [(''title'', JStr ''x'')])], isSaving = True\<rparr>)"
    by (simp add: handleSave_begin_def save_changes_def Let_def)
  have r: "ui_run Number_of_numeral (\<lambda>_. Resolved) (table_mount [issue_1, issue_2])
       [TitleInput 0 ''x'', SaveClick]
     = \<lparr>issues_prop = [issue_1, issue_2],
        table = \<lparr>editState = [(''LIN-1'', [(''title'', JStr ''x'')])], isSaving = True\<rparr>,
        saves = [[(''LIN-1'', [(''title'', JStr ''x'')])]]\<rparr>"
    by (simp add: table_eval)
  have app: "ui_run Number onSave w (evs @ evs') = ui_run Number onSave (ui_run Number onSave w evs) evs'"
    for Number onSave w evs evs'
    by (simp add: ui_run_def)
  note inst = C9_no_edit_while_saving [where
      st = "\<lparr>editState = [(''LIN-1'', [(''title'', JStr ''x'')])], isSaving = False\<rparr>"
      and Number = Number_of_numeral
      and changes = "[(''LIN-1'', [(''title'', JStr ''x'')])]"
      and ?st1.0 = "\<lparr>editState = [(''LIN-1'', [(''title'', JStr ''x'')])], isSaving = True\<rparr>"
      and calls = "[(''LIN-1'', ''title'', Some ''y''), (''77aa'', ''priority'', Some ''1'')]"
      and w = "ui_run Number_of_numeral (\<lambda>_. Resolved) (table_mount [issue_1, issue_2])
         [TitleInput 0 ''x'', SaveClick]"
      and evs = "[TitleInput 0 ''y'', PrioritySelect 1 ''1'', SaveClick]"]
  note rej = inst [where onSave = "\<lambda>_. Rejected (JStr ''offline'')"]
  note res = inst [where onSave = "\<lambda>_. Resolved"]
  have one: "table (ui_run Number_of_numeral (\<lambda>_. Resolved) (table_mount [issue_1, issue_2])
       [TitleInput 0 ''x'', SaveClick, TitleInput 0 ''y'', PrioritySelect 1 ''1'', SaveClick])
     = \<lparr>editState = [(''LIN-1'', [(''title'', JStr ''x'')])], isSaving = True\<rparr>"
    using res app [of Number_of_numeral "\<lambda>_. Resolved" "table_mount [issue_1, issue_2]"
        "[TitleInput 0 ''x'', SaveClick]" "[TitleInput 0 ''y'', PrioritySelect 1 ''1'', SaveClick]"]
    by (simp add: r)
  have two: "table (ui_run Number_of_numeral (\<lambda>_. Resolved) (table_mount [issue_1, issue_2])
       [TitleInput 0 ''x'', SaveClick, TitleInput 0 ''y'', SaveSettled])
     = \<lparr>editState = [], isSaving = False\<rparr>"
    by (simp add: table_eval)
  from rej b one two show ?thesis
    by (simp add: handleSave_def handleSave_settle_def save_changes_def)
qed

text \<open>
  C2: \<^verbatim>\<open>handleSave\<close> calls \<^verbatim>\<open>onSave\<close> exactly when the buffer has an entry with a field.
  When \<^verbatim>\<open>onSave\<close> resolves, the buffer is emptied and \<^verbatim>\<open>isSaving\<close> reset. When
  \<^verbatim>\<open>onSave\<close> rejects, the rejection leaves through the promise, the buffer is as it was
  and only \<^verbatim>\<open>isSaving\<close> is reset. When \<^verbatim>\<open>onSave\<close> is not called, nothing changes. So the
  buffer changes only by being emptied after \<^verbatim>\<open>onSave\<close> resolved.
\<close>

theorem C2_handleSave_clears_on_success:
  "(save_changes (editState st) \<noteq> [] \<and> onSave (save_changes (editState st)) = Resolved \<longrightarrow>
      handleSave onSave st = (None, st\<lparr>editState := [], isSaving := False\<rparr>)) \<and>
   (\<forall>e. save_changes (editState st) \<noteq> [] \<and> onSave (save_changes (editState st)) = Rejected e \<longrightarrow>
      handleSave onSave st = (Some e, st\<lparr>isSaving := False\<rparr>)) \<and>
   (save_changes (editState st) = [] \<longrightarrow> handleSave onSave st = (None, st)) \<and>
   (editState (snd (handleSave onSave st)) \<noteq> editState st \<longrightarrow>
      save_changes (editState st) \<noteq> [] \<and> onSave (save_changes (editState st)) = Resolved \<and>
      editState (snd (handleSave onSave st)) = [])"
  by (auto simp: handleSave_def Let_def split: outcome.splits)

theorem C2_handleSave_clears_on_success_witness:
  "handleSave (\<lambda>_. Resolved) \<lparr>editState = [(''LIN-1'', [(''title'', JStr ''x'')])], isSaving = False\<rparr>
     = (None, \<lparr>editState = [], isSaving = False\<rparr>) \<and>
   handleSave (\<lambda>_. Rejected (JStr ''offline''))
       \<lparr>editState = [(''LIN-1'', [(''title'', JStr ''x'')])], isSaving = False\<rparr>
     = (Some (JStr ''offline''),
        \<lparr>editState = [(''LIN-1'', [(''title'', JStr ''x'')])], isSaving = False\<rparr>) \<and>
   handleSave (\<lambda>_. Resolved) table_init = (None, table_init)"
  using
    C2_handleSave_clears_on_success [of
      "\<lparr>editState = [(''LIN-1'', [(''title'', JStr ''x'')])], isSaving = False\<rparr>" "\<lambda>_. Resolved"]
    C2_handleSave_clears_on_success [of
      "\<lparr>editState = [(''LIN-1'', [(''title'', JStr ''x'')])], isSaving = False\<rparr>"
      "\<lambda>_. Rejected (JStr ''offline'')"]
    C2_handleSave_clears_on_success [of table_init "\<lambda>_. Resolved"]
  by (simp add: save_changes_def table_init_def)

lemma update_entries: "set (AList.update k v al) \<subseteq> insert (k, v) (set al)"
  by (induction al) auto

lemma handleFieldChange_buffer_ok:
  assumes "buffer_ok (editState st)"
  shows "buffer_ok (editState (handleFieldChange Number st i field v))"
proof (cases "isSaving st")
  case True
  with assms show ?thesis by (simp add: handleFieldChange_def)
next
  case False
  let ?fs = "AList.update field (field_value Number field v)
      (case map_of (editState st) i of Some prev \<Rightarrow> prev | None \<Rightarrow> [])"
  have ne: "?fs \<noteq> []" by simp
  from update_entries [of i ?fs "editState st"] assms ne
  have "list_all (\<lambda>e. snd e \<noteq> []) (AList.update i ?fs (editState st))"
    by (auto simp: buffer_ok_def list_all_iff)
  moreover from assms have "distinct (map fst (AList.update i ?fs (editState st)))"
    by (simp add: buffer_ok_def distinct_update)
  ultimately show ?thesis using False
    by (simp add: handleFieldChange_def buffer_ok_def)
qed

lemma handleSave_settle_buffer_ok:
  "buffer_ok (editState st) \<Longrightarrow> buffer_ok (editState (handleSave_settle settled st))"
  by (cases settled) (simp_all add: handleSave_settle_def buffer_ok_def)

lemma on_row_buffer_ok:
  assumes "\<And>k. buffer_ok (editState (change k))" and "buffer_ok (editState (table w))"
  shows "buffer_ok (editState (table (on_row w row change)))"
  using assms by (simp add: on_row_def)

lemma ui_step_buffer_ok:
  assumes "buffer_ok (editState (table w))"
  shows "buffer_ok (editState (table (ui_step Number onSave w ev)))"
proof (cases ev)
  case SaveClick
  have "editState (table (ui_step Number onSave w SaveClick)) = editState (table w)"
    using handleSave_begin_editState [of "table w"]
    by (cases "handleSave_begin (table w)") (auto split: option.splits)
  with SaveClick assms show ?thesis by simp
next
  case SaveSettled
  with assms handleSave_settle_buffer_ok [OF assms] show ?thesis
    by (cases "saves w") simp_all
next
  case (IssuesChange supplied)
  with assms show ?thesis by simp
qed (simp_all add: on_row_buffer_ok [OF handleFieldChange_buffer_ok [OF assms] assms])

lemma ui_run_buffer_ok:
  "buffer_ok (editState (table w)) \<Longrightarrow>
     buffer_ok (editState (table (ui_run Number onSave w evs)))"
  unfolding ui_run_def
proof (induction evs arbitrary: w)
  case Nil
  then show ?case by simp
next
  case (Cons ev evs)
  from Cons.IH [OF ui_step_buffer_ok [OF Cons.prems]] show ?case by simp
qed

lemma save_changes_buffer_ok:
  assumes "buffer_ok es"
  shows "save_changes es = es"
proof -
  have "filter (\<lambda>(idFields, _).
          (case map_of es idFields of Some fs \<Rightarrow> length (map fst fs) > 0 | None \<Rightarrow> False)) es = es"
  proof (rule filter_True, clarify)
    fix k fs
    assume mem: "(k, fs) \<in> set es"
    with assms have "map_of es k = Some fs" by (simp add: buffer_ok_def)
    moreover from mem assms have "fs \<noteq> []" by (auto simp: buffer_ok_def list_all_iff)
    ultimately show "case map_of es k of Some fs \<Rightarrow> length (map fst fs) > 0 | None \<Rightarrow> False"
      by simp
  qed
  then show ?thesis by (simp add: save_changes_def)
qed

text \<open>
  Every buffer reached from the empty one by events of the table has an entry with a
  field for each of its keys, so \<^verbatim>\<open>handleSave\<close> passes the whole buffer to
  \<^verbatim>\<open>onSave\<close>, and calls it exactly when the buffer is not empty.
\<close>

theorem save_sends_whole_buffer:
  "save_changes (editState (table (ui_run Number onSave (table_mount supplied) evs)))
     = editState (table (ui_run Number onSave (table_mount supplied) evs))"
proof -
  have "buffer_ok (editState (table (table_mount supplied)))"
    by (simp add: table_mount_def table_init_def buffer_ok_def)
  from save_changes_buffer_ok [OF ui_run_buffer_ok [OF this]] show ?thesis .
qed

text \<open>
  What the row shows: an override that is a string (or a number, for the priority) is
  shown; with no entry in the buffer the prop is shown. An assignee override of
  \<^verbatim>\<open>null\<close>, which the assignee control stores for its option \<^verbatim>\<open>Unassigned\<close>, is passed
  over by \<^verbatim>\<open>??\<close>: the row shows the assignee of the prop.
\<close>

lemma override_displayed:
  "get_prop (edited es i) ''title'' = JStr s \<Longrightarrow> title_value es i = JStr s"
  "get_prop (edited es i) ''description'' = JStr s \<Longrightarrow> description_value es i = JStr s"
  "get_prop (edited es i) ''status'' = JStr s \<Longrightarrow> status_value es i = JStr s"
  "get_prop (edited es i) ''assigneeId'' = JStr s \<Longrightarrow> assignee_value es i = JStr s"
  "get_prop (edited es i) ''priority'' = JNum n \<Longrightarrow> priority_value es i = JNum n"
  by (simp_all add: title_value_def description_value_def status_value_def assignee_value_def
      priority_value_def coalesce_def)

lemma no_override_displays_prop:
  "map_of es (issue_key i) = None \<Longrightarrow>
     title_value es i = JStr (issue.title i) \<and>
     description_value es i = JStr (description i) \<and>
     status_value es i = JStr (status i) \<and>
     assignee_value es i = (case assigneeId i of Some a \<Rightarrow> JStr a | None \<Rightarrow> JStr []) \<and>
     priority_value es i = JNum (priority i)"
  by (simp add: title_value_def description_value_def status_value_def assignee_value_def
      priority_value_def coalesce_def edited_def get_prop_def of_nullable_def split: option.splits)

lemma null_assignee_override_ignored:
  "get_prop (edited es i) ''assigneeId'' = JNull \<Longrightarrow>
     assignee_value es i = (case assigneeId i of Some a \<Rightarrow> JStr a | None \<Rightarrow> JStr [])"
  by (simp add: assignee_value_def coalesce_def of_nullable_def split: option.splits)

text \<open>
  C4, at the issue \<open>issue_1\<close> assigned to \<^verbatim>\<open>u1\<close>: choosing \<^verbatim>\<open>Unassigned\<close> in its row
  stores the override \<^verbatim>\<open>assigneeId: null\<close> under the row key, and the assignee control
  then shows \<^verbatim>\<open>u1\<close> again, not the empty value of \<^verbatim>\<open>Unassigned\<close>.
\<close>

theorem C4_unassigned_override_shows_former_assignee:
  "assigneeId issue_1 = Some ''u1'' \<and>
   editState (table (ui_run Number_of_numeral (\<lambda>_. Resolved) (table_mount [issue_1])
       [AssigneeSelect 0 '''']))
     = [(''LIN-1'', [(''assigneeId'', JNull)])] \<and>
   assignee_value [(''LIN-1'', [(''assigneeId'', JNull)])] issue_1 = JStr ''u1''"
  by (simp add: table_eval assignee_value_def edited_def get_prop_def coalesce_def)

section \<open>Facts about the boundary schema\<close>

lemma z_string_Inr: "(z_string path v = Inr s) = (v = JStr s)"
  by (cases v) (simp_all add: z_string_def)

lemma z_enum_Inr: "(z_enum options path v = Inr s) = (v = JStr s \<and> s \<in> set options)"
  by (cases v) (auto simp: z_enum_def)

lemma z_optional_Inr:
  "(z_optional inner v = Inr r) =
     (if v = JUndefined then r = None else (\<exists>a. inner v = Inr a \<and> r = Some a))"
  by (auto simp: z_optional_def split: sum.splits)

lemma renderDiagramSchema_Inr:
  "(renderDiagramSchema (JObj obj) = Inr p) =
     (\<exists>d' t' th' w' h'.
        z_string ''diagram'' (get_prop obj ''diagram'') = Inr d' \<and>
        z_optional (z_string ''title'') (get_prop obj ''title'') = Inr t' \<and>
        z_optional_default (JStr ''default'') (z_enum themes ''theme'') (get_prop obj ''theme'')
          = Inr th' \<and>
        z_optional_default (JStr ''100%'') (z_string ''width'') (get_prop obj ''width'') = Inr w' \<and>
        z_optional_default (JStr ''400px'') (z_string ''height'') (get_prop obj ''height'') = Inr h' \<and>
        p = \<lparr>diagram = d', title = t', theme = th', width = w', height = h'\<rparr>)"
  by (auto simp: renderDiagramSchema_def Let_def split: sum.splits)

lemma renderDiagramSchema_accepts:
  "(renderDiagramSchema (JObj obj) = Inr p) =
     (get_prop obj ''diagram'' = JStr (diagram p) \<and>
      (if get_prop obj ''title'' = JUndefined then RenderDiagramProps.title p = None
       else \<exists>s. get_prop obj ''title'' = JStr s \<and> RenderDiagramProps.title p = Some s) \<and>
      (if get_prop obj ''theme'' = JUndefined then theme p = ''default''
       else get_prop obj ''theme'' = JStr (theme p) \<and> theme p \<in> set themes) \<and>
      (if get_prop obj ''width'' = JUndefined then width p = ''100%''
       else get_prop obj ''width'' = JStr (width p)) \<and>
      (if get_prop obj ''height'' = JUndefined then height p = ''400px''
       else get_prop obj ''height'' = JStr (height p)))"
  unfolding renderDiagramSchema_Inr
  by (cases p) (auto simp: z_string_Inr z_enum_Inr z_optional_Inr z_optional_default_def themes_def)

text \<open>
  C8: when the parse of an object succeeds, an omitted \<^verbatim>\<open>theme\<close>, \<^verbatim>\<open>width\<close> or
  \<^verbatim>\<open>height\<close> is parsed to its default \<^verbatim>\<open>default\<close>, \<^verbatim>\<open>100%\<close>, \<^verbatim>\<open>400px\<close>; the parse
  succeeds on every object whose \<^verbatim>\<open>diagram\<close> is a string and whose other keys are
  omitted or valid; and an object whose \<^verbatim>\<open>theme\<close> is present and not one of the five
  theme names is rejected with an issue on \<^verbatim>\<open>theme\<close>.
\<close>

theorem C8_schema_defaults:
  "(renderDiagramSchema (JObj obj) = Inr p \<longrightarrow>
      (get_prop obj ''theme'' = JUndefined \<longrightarrow> theme p = ''default'') \<and>
      (get_prop obj ''width'' = JUndefined \<longrightarrow> width p = ''100%'') \<and>
      (get_prop obj ''height'' = JUndefined \<longrightarrow> height p = ''400px'')) \<and>
   ((\<exists>s. get_prop obj ''diagram'' = JStr s) \<and>
    (get_prop obj ''title'' = JUndefined \<or> (\<exists>s. get_prop obj ''title'' = JStr s)) \<and>
    (get_prop obj ''theme'' = JUndefined \<or>
       get_prop obj ''theme'' \<in> JStr ` set [''default'', ''dark'', ''forest'', ''base'', ''neutral'']) \<and>
    (get_prop obj ''width'' = JUndefined \<or> (\<exists>s. get_prop obj ''width'' = JStr s)) \<and>
    (get_prop obj ''height'' = JUndefined \<or> (\<exists>s. get_prop obj ''height'' = JStr s))
    \<longrightarrow> (\<exists>q. renderDiagramSchema (JObj obj) = Inr q)) \<and>
   (get_prop obj ''theme'' \<noteq> JUndefined \<and>
    get_prop obj ''theme'' \<notin> JStr ` set [''default'', ''dark'', ''forest'', ''base'', ''neutral'']
    \<longrightarrow> (\<exists>issues. renderDiagramSchema (JObj obj) = Inl issues \<and>
           (invalid_type ''theme'' \<in> set issues \<or> invalid_enum_value ''theme'' \<in> set issues)))"
proof (intro conjI impI)
  assume "renderDiagramSchema (JObj obj) = Inr p"
  then have a: "(if get_prop obj ''theme'' = JUndefined then theme p = ''default''
       else get_prop obj ''theme'' = JStr (theme p) \<and> theme p \<in> set themes)"
    and b: "(if get_prop obj ''width'' = JUndefined then width p = ''100%''
       else get_prop obj ''width'' = JStr (width p))"
    and c: "(if get_prop obj ''height'' = JUndefined then height p = ''400px''
       else get_prop obj ''height'' = JStr (height p))"
    by (simp_all add: renderDiagramSchema_accepts)
  { assume "get_prop obj ''theme'' = JUndefined" with a show "theme p = ''default''" by simp }
  { assume "get_prop obj ''width'' = JUndefined" with b show "width p = ''100%''" by simp }
  { assume "get_prop obj ''height'' = JUndefined" with c show "height p = ''400px''" by simp }
next
  assume ok: "(\<exists>s. get_prop obj ''diagram'' = JStr s) \<and>
    (get_prop obj ''title'' = JUndefined \<or> (\<exists>s. get_prop obj ''title'' = JStr s)) \<and>
    (get_prop obj ''theme'' = JUndefined \<or>
       get_prop obj ''theme'' \<in> JStr ` set [''default'', ''dark'', ''forest'', ''base'', ''neutral'']) \<and>
    (get_prop obj ''width'' = JUndefined \<or> (\<exists>s. get_prop obj ''width'' = JStr s)) \<and>
    (get_prop obj ''height'' = JUndefined \<or> (\<exists>s. get_prop obj ''height'' = JStr s))"
  then obtain d where d: "z_string ''diagram'' (get_prop obj ''diagram'') = Inr d"
    by (auto simp: z_string_Inr)
  from ok obtain t where t: "z_optional (z_string ''title'') (get_prop obj ''title'') = Inr t"
    by (auto simp: z_optional_Inr z_string_Inr)
  from ok obtain th where th:
    "z_optional_default (JStr ''default'') (z_enum themes ''theme'') (get_prop obj ''theme'') = Inr th"
    by (auto simp: z_optional_default_def z_enum_Inr themes_def)
  from ok obtain w where w:
    "z_optional_default (JStr ''100%'') (z_string ''width'') (get_prop obj ''width'') = Inr w"
    by (auto simp: z_optional_default_def z_string_Inr)
  from ok obtain h where h:
    "z_optional_default (JStr ''400px'') (z_string ''height'') (get_prop obj ''height'') = Inr h"
    by (auto simp: z_optional_default_def z_string_Inr)
  from d t th w h show "\<exists>q. renderDiagramSchema (JObj obj) = Inr q"
    by (simp add: renderDiagramSchema_Inr)
next
  assume bad: "get_prop obj ''theme'' \<noteq> JUndefined \<and>
    get_prop obj ''theme'' \<notin> JStr ` set [''default'', ''dark'', ''forest'', ''base'', ''neutral'']"
  then have "z_optional_default (JStr ''default'') (z_enum themes ''theme'') (get_prop obj ''theme'')
      = Inl (invalid_type ''theme'') \<or>
    z_optional_default (JStr ''default'') (z_enum themes ''theme'') (get_prop obj ''theme'')
      = Inl (invalid_enum_value ''theme'')"
    by (cases "get_prop obj ''theme''") (auto simp: z_optional_default_def z_enum_def themes_def)
  then show "\<exists>issues. renderDiagramSchema (JObj obj) = Inl issues \<and>
           (invalid_type ''theme'' \<in> set issues \<or> invalid_enum_value ''theme'' \<in> set issues)"
    by (auto simp: renderDiagramSchema_def Let_def issues_of_def split: sum.splits)
qed

theorem C8_schema_defaults_witness:
  "renderDiagramSchema (JObj [(''diagram'', JStr ''graph TD'')])
     = Inr \<lparr>diagram = ''graph TD'', title = None, theme = ''default'', width = ''100%'',
          height = ''400px''\<rparr> \<and>
   renderDiagramSchema (JObj [(''diagram'', JStr ''graph TD''), (''theme'', JStr ''solarized'')])
     = Inl [invalid_enum_value ''theme'']"
  using
    C8_schema_defaults [of "[(''diagram'', JStr ''graph TD'')]"
      "\<lparr>diagram = ''graph TD'', title = None, theme = ''default'', width = ''100%'',
          height = ''400px''\<rparr>"]
    C8_schema_defaults [of "[(''diagram'', JStr ''graph TD''), (''theme'', JStr ''solarized'')]"]
  by (simp add: renderDiagramSchema_def get_prop_def z_string_def z_optional_def
      z_optional_default_def z_enum_def themes_def issues_of_def Let_def)

section \<open>Facts about the render effect\<close>



lemma renderDiagram_begin_eq:
  "renderDiagram_begin st =
     st\<lparr>isLoading := True, error := None, innerHTML := map_option (\<lambda>_. []) (innerHTML st)\<rparr>"
  by (simp add: renderDiagram_begin_def set_surface_def)

lemma renderDiagram_settle_throws:
  "renderDiagram_settle c (Throws err) st =
     st\<lparr>isLoading := False, error := Some (error_message err),
        innerHTML :=
          map_option (\<lambda>html. if c_complete c then []
                              else (case c_lastValidSvg c of
                                      Some svg \<Rightarrow> (if svg \<noteq> [] then svg else html)
                                    | None \<Rightarrow> html))
            (innerHTML st)\<rparr>"
  by (cases "innerHTML st")
     (simp_all add: renderDiagram_settle_def Let_def set_surface_def split: option.splits)

lemma renderDiagram_settle_svg:
  "renderDiagram_settle c (Svg svg) st =
     st\<lparr>isLoading := False, lastValidSvg := Some svg,
        innerHTML :=
          map_option (\<lambda>html. if c_complete c \<or> \<not> truthy_cell (c_error c) then svg else html)
            (innerHTML st)\<rparr>"
  by (cases "innerHTML st") (simp_all add: renderDiagram_settle_def Let_def set_surface_def)








lemma rerun_loop_not_at_rest:
  assumes "rerun_loop diagramId env w"
  shows "\<not> at_rest diagramId env w"
proof (cases "error (dstate w) = None")
  case True
  with assms show ?thesis by (auto simp: rerun_loop_def at_rest_def)
next
  case False
  with assms show ?thesis
    by (auto simp: rerun_loop_def at_rest_def render_due_def render_deps_of_def)
qed

lemma rerun_loop_step:
  assumes thr: "mermaid_render (''diagram-'' @ diagramId) (env_diagram env) = Throws err"
    and ne: "env_diagram env \<noteq> []"
    and loop: "rerun_loop diagramId env w"
  shows "rerun_loop diagramId env (widget_step mermaid_render diagramId env w)"
proof -
  from loop obtain seen where
    init: "isInitialized (dstate w)" and surf: "innerHTML (dstate w) \<noteq> None"
    and cache: "lastValidSvg (dstate w) = None"
    and d1: "last_init_deps w = Some (env_theme env, True)"
    and texts: "list_all (\<lambda>c. c_diagram c = env_diagram env) (renders w)"
    and d2: "last_render_deps w
      = Some (True, env_diagram env, diagramId, isComplete (env_stage env), None, seen)"
    and phase: "if error (dstate w) = None then renders w \<noteq> [] else seen = None"
    by (auto simp: rerun_loop_def)
  show ?thesis
  proof (cases "render_due diagramId env w")
    case True
    with init cache d1 d2 have changed: "error (dstate w) \<noteq> seen"
      by (auto simp: render_due_def init_deps_of_def render_deps_of_def)
    with init cache d1 d2
    have step: "widget_step mermaid_render diagramId env w =
        (render_effect env (dstate w) w)
          \<lparr>last_init_deps := Some (env_theme env, True),
           last_render_deps := Some (True, env_diagram env, diagramId,
             isComplete (env_stage env), None, error (dstate w))\<rparr>"
      using True
      by (simp add: widget_step_def react_render_def Let_def init_deps_of_def
          render_deps_of_def)
    from init ne surf
    have eff: "render_effect env (dstate w) w =
        w\<lparr>dstate := renderDiagram_begin (dstate w),
          renders := renders w @ [closure_of env (dstate w)]\<rparr>"
      by (auto simp: render_effect_def)
    from init surf cache texts show ?thesis
      unfolding step eff
      by (cases "innerHTML (dstate w)")
         (simp_all add: rerun_loop_def renderDiagram_begin_eq closure_of_def)
  next
    case False
    with init cache d1 d2 have same: "error (dstate w) = seen"
      by (auto simp: render_due_def init_deps_of_def render_deps_of_def)
    with phase have pending: "renders w \<noteq> []" and quiet: "seen = None"
      by (auto split: if_splits)
    then obtain c cs where cs: "renders w = c # cs" by (cases "renders w") auto
    with texts have c: "c_diagram c = env_diagram env" and rest:
      "list_all (\<lambda>c. c_diagram c = env_diagram env) cs"
      by simp_all
    from False cs c thr
    have step: "widget_step mermaid_render diagramId env w =
        w\<lparr>dstate := renderDiagram_settle c (Throws err) (dstate w), renders := cs\<rparr>"
      by (simp add: widget_step_def settle_def Let_def)
    from init surf cache d1 d2 quiet rest show ?thesis
      unfolding step
      by (cases "innerHTML (dstate w)")
         (simp_all add: rerun_loop_def renderDiagram_settle_throws)
  qed
qed

lemma rerun_loop_start:
  assumes "env_diagram env \<noteq> []"
  shows "rerun_loop diagramId env
     (widget_step mermaid_render diagramId env
        (widget_step mermaid_render diagramId env diagram_mount))"
proof -
  have one: "widget_step mermaid_render diagramId env diagram_mount =
      \<lparr>dstate = diagram_init\<lparr>isInitialized := True\<rparr>,
       last_init_deps = Some (env_theme env, False),
       last_render_deps = Some (False, env_diagram env, diagramId,
         isComplete (env_stage env), None, None),
       renders = []\<rparr>"
    by (simp add: widget_step_def render_due_def diagram_mount_def react_render_def Let_def
        init_deps_of_def render_deps_of_def initialize_effect_def render_effect_def
        diagram_init_def)
  from assms show ?thesis
    unfolding one
    by (simp add: widget_step_def render_due_def react_render_def Let_def
        init_deps_of_def render_deps_of_def initialize_effect_def render_effect_def
        diagram_init_def rerun_loop_def renderDiagram_begin_eq closure_of_def)
qed

lemma rerun_loop_funpow:
  assumes "mermaid_render (''diagram-'' @ diagramId) (env_diagram env) = Throws err"
    and "env_diagram env \<noteq> []"
  shows "rerun_loop diagramId env
     ((widget_step mermaid_render diagramId env ^^ (Suc (Suc n))) diagram_mount)"
proof (induction n)
  case 0
  from rerun_loop_start [OF assms(2)] show ?case by simp
next
  case (Suc n)
  from rerun_loop_step [of mermaid_render diagramId env err, OF assms Suc.IH]
  show ?case by simp
qed

text \<open>
  The effect lists \<^verbatim>\<open>error\<close> among its dependencies and sets it: with unchanged props
  and a text on which the library throws, every failed render sets the error cell, the
  render that follows runs the effect again, which clears the cell and so causes one
  more render and run. When renders come before settling promises, the widget never
  comes to rest.
\<close>

theorem invalid_text_never_at_rest:
  assumes "mermaid_render (''diagram-'' @ diagramId) (env_diagram env) = Throws err"
    and "env_diagram env \<noteq> []"
  shows "\<not> at_rest diagramId env
     ((widget_step mermaid_render diagramId env ^^ n) diagram_mount)"
proof -
  consider "n = 0" | "n = Suc 0" | m where "n = Suc (Suc m)"
    by (metis not0_implies_Suc)
  then show ?thesis
  proof cases
    case 1
    then show ?thesis
      by (simp add: at_rest_def render_due_def diagram_mount_def)
  next
    case 2
    then show ?thesis
      by (simp add: at_rest_def render_due_def widget_step_def diagram_mount_def
          react_render_def Let_def init_deps_of_def render_deps_of_def initialize_effect_def
          render_effect_def diagram_init_def)
  next
    case 3
    from rerun_loop_not_at_rest
      [OF rerun_loop_funpow [of mermaid_render diagramId env err m, OF assms]] 3
    show ?thesis
      by simp
  qed
qed

text \<open>
  A successful render of an in-progress update does not reach the surface when the
  error cell of the render that started it was set: the cache takes the new SVG and
  the surface keeps what it holds.
\<close>

lemma streaming_success_after_error:
  assumes "truthy_cell (c_error c)" and "\<not> c_complete c"
  shows "renderDiagram_settle c (Svg svg) st = st\<lparr>isLoading := False, lastValidSvg := Some svg\<rparr>"
  using assms by (cases "innerHTML st") (simp_all add: renderDiagram_settle_svg)

end
